theory Spec2Isabelle
  imports Main
begin

section \<open>The Go notions the queue is written with\<close>

text \<open>
  The repository is a bounded FIFO queue of Go \<open>int\<close>s on a circular buffer
  (\<open>queue_native.go\<close>). The model below follows that file function by function.

  Go's \<open>int\<close> is modelled by HOL's \<open>int\<close>. The arithmetic of the code is
  \<open>tail + 1\<close>, \<open>head + 1\<close>, \<open>length++\<close> and \<open>length--\<close>. The two sums are
  computed after the index expression on \<open>tail\<close> or \<open>head\<close> has passed its range
  check, so they are at most the length of the buffer; \<open>length\<close> stays between 0 and
  the length of the buffer in every state a queue reaches (the structural invariant
  proved below). No machine addition wraps there.

  An \<open>error\<close> value is \<open>nil\<close> (\<open>None\<close>) or the result of \<open>errors.New\<close>.
\<close>

datatype go_error = errors_New string

text \<open>The run-time panics the code can raise: an index outside a slice, the integer
  remainder by zero, and \<open>make\<close> with a length out of range. \<open>OutOfMemory\<close> is the
  runtime's fatal error when it cannot get the memory of an allocation; like a panic it
  ends the call, and no value is returned.\<close>

datatype panic = IndexOutOfRange | IntegerDivideByZero | MakesliceLenOutOfRange | OutOfMemory

text \<open>
  What \<open>make([]int, n, n)\<close> does on a large \<open>n\<close> depends on the platform and on the
  memory of the machine, which are no part of the repository: they are a parameter of
  the model. \<open>maxlen\<close> is the largest length of an \<open>[]int\<close> the runtime accepts (its
  maximum allocation divided by the size of an \<open>int\<close>): beyond it \<open>make\<close> panics
  "makeslice: len out of range", as it does on a negative length. \<open>memlen\<close> is the
  largest length the machine has memory for. A slice of length 0 needs no memory.
\<close>

record go_runtime =
  maxlen :: nat
  memlen :: nat

definition fits :: "go_runtime \<Rightarrow> int \<Rightarrow> bool" where
  "fits rt n = (n \<le> int (maxlen rt) \<and> n \<le> int (memlen rt))"

text \<open>The runtime of the examples: a 64-bit Linux (maximum allocation \<open>2^48\<close> bytes,
  \<open>int\<close> of 8 bytes, so \<open>maxlen = 2^45\<close>) with memory for \<open>2^27\<close> \<open>int\<close>s.\<close>

definition sample_runtime :: go_runtime where
  "sample_runtime = \<lparr>maxlen = 35184372088832, memlen = 134217728\<rparr>"

text \<open>
  The two condition variables of the queue share its one mutex. The model records what
  an operation does to them as a trace of events, in program order: \<open>Lock\<close> and
  \<open>Unlock\<close> of the mutex (the \<open>defer\<close>red unlock runs last, also after a panic),
  \<open>Signal\<close> on a condition variable, and \<open>Wait\<close> on one.
\<close>

datatype cond = putcv | getcv

datatype sync_event = Lock | Unlock | Signal cond | Wait cond

text \<open>
  A call returns a value, or panics, or blocks: the model is of one goroutine calling
  the queue, so a \<open>Wait\<close> is never followed by another goroutine's \<open>Signal\<close> and the
  call that waits never returns (\<open>Blocked\<close>).
\<close>

datatype 'a outcome = Returned 'a | Blocked | Panicked panic

text \<open>Go's \<open>%\<close> truncates towards zero: the result has the sign of the dividend.
  The divisor 0 panics, which each caller checks before using \<open>go_rem\<close>.\<close>

definition go_rem :: "int \<Rightarrow> int \<Rightarrow> int" where
  "go_rem a b = sgn a * (\<bar>a\<bar> mod \<bar>b\<bar>)"

text \<open>An index expression \<open>s[i]\<close> panics unless \<open>0 \<le> i < len(s)\<close>.\<close>

definition in_bounds :: "int \<Rightarrow> 'a list \<Rightarrow> bool" where
  "in_bounds i s = (0 \<le> i \<and> i < int (length s))"

text \<open>\<open>fmt.Sprintf\<close>'s \<open>%v\<close> of an \<open>int\<close>: its decimal digits, with a leading minus
  sign when it is negative.\<close>

definition digit :: "nat \<Rightarrow> char" where
  "digit d = ''0123456789'' ! d"

fun fmt_nat :: "nat \<Rightarrow> string" where
  "fmt_nat n = (if n < 10 then [digit n] else fmt_nat (n div 10) @ [digit (n mod 10)])"

declare fmt_nat.simps [simp del]

definition fmt_v :: "int \<Rightarrow> string" where
  "fmt_v i = (if i < 0 then CHR ''-'' # fmt_nat (nat (- i)) else fmt_nat (nat i))"

section \<open>The queue\<close>

text \<open>
  \<open>type NativeIntQ struct\<close>. The field \<open>length\<close> is \<open>length_q\<close> here (HOL's
  \<open>length\<close> is the length of a list). The slice \<open>queue\<close> is a list; the code never
  appends to it or reslices it, so \<open>len\<close> and \<open>cap\<close> of the slice are
  both the length of the list. \<open>mtx\<close>, \<open>putcv\<close> and \<open>getcv\<close> hold no data of the
  queue: what the code does with them is the event trace of each operation.
\<close>

record NativeIntQ =
  queue :: "int list"
  head :: int
  tail :: int
  length_q :: int
  capacity :: int

text \<open>\<open>func NewNativeQueue(size int) *NativeIntQ\<close>. The code checks nothing of
  \<open>size\<close> itself (\<open>size_arg\<close> here: \<open>size\<close> is a constant of HOL); its first statement,
  \<open>make([]int, size, size)\<close>, panics on a negative \<open>size\<close> and on one beyond the
  runtime's largest length, dies when the machine lacks the memory, and otherwise gives
  \<open>size\<close> zeros.\<close>

definition NewNativeQueue :: "go_runtime \<Rightarrow> int \<Rightarrow> panic + NativeIntQ" where
  "NewNativeQueue rt size_arg =
     (if size_arg < 0 \<or> int (maxlen rt) < size_arg then Inl MakesliceLenOutOfRange
      else if int (memlen rt) < size_arg then Inl OutOfMemory
      else Inr \<lparr> queue = replicate (nat size_arg) 0, head = 0, tail = 0, length_q = 0,
                 capacity = size_arg \<rparr>)"

text \<open>\<open>func (nvq *NativeIntQ) TryPut(value int) error\<close>\<close>

definition TryPut :: "int \<Rightarrow> NativeIntQ \<Rightarrow> go_error option outcome \<times> NativeIntQ \<times> sync_event list" where
  "TryPut value nvq =
     (if length_q nvq = capacity nvq then
        (Returned (Some (errors_New ''queue is full'')), nvq, [Lock, Unlock])
      else if \<not> in_bounds (tail nvq) (queue nvq) then
        (Panicked IndexOutOfRange, nvq, [Lock, Unlock])
      else
        let nvq1 = nvq\<lparr>queue := (queue nvq)[nat (tail nvq) := value]\<rparr> in
        if capacity nvq1 = 0 then (Panicked IntegerDivideByZero, nvq1, [Lock, Unlock])
        else
          let nvq2 = nvq1\<lparr>tail := go_rem (tail nvq1 + 1) (capacity nvq1)\<rparr>;
              nvq3 = nvq2\<lparr>length_q := length_q nvq2 + 1\<rparr>
          in (Returned None, nvq3, [Lock, Signal getcv, Unlock]))"

text \<open>\<open>func (nvq *NativeIntQ) Put(value int)\<close>. The loop
  \<open>for nvq.length == nvq.capacity { nvq.putcv.Wait() }\<close> is entered on a full queue,
  and its first \<open>Wait\<close> does not return.\<close>

definition Put :: "int \<Rightarrow> NativeIntQ \<Rightarrow> unit outcome \<times> NativeIntQ \<times> sync_event list" where
  "Put value nvq =
     (if length_q nvq = capacity nvq then
        (Blocked, nvq, [Lock, Wait putcv])
      else if \<not> in_bounds (tail nvq) (queue nvq) then
        (Panicked IndexOutOfRange, nvq, [Lock, Unlock])
      else
        let nvq1 = nvq\<lparr>queue := (queue nvq)[nat (tail nvq) := value]\<rparr> in
        if capacity nvq1 = 0 then (Panicked IntegerDivideByZero, nvq1, [Lock, Unlock])
        else
          let nvq2 = nvq1\<lparr>tail := go_rem (tail nvq1 + 1) (capacity nvq1)\<rparr>;
              nvq3 = nvq2\<lparr>length_q := length_q nvq2 + 1\<rparr>
          in (Returned (), nvq3, [Lock, Signal getcv, Unlock]))"

text \<open>\<open>func (nvq *NativeIntQ) Get() int\<close>. The loop
  \<open>for nvq.length == 0 { nvq.getcv.Wait() }\<close> is entered on \<open>length == 0\<close> only.\<close>

definition Get :: "NativeIntQ \<Rightarrow> int outcome \<times> NativeIntQ \<times> sync_event list" where
  "Get nvq =
     (if length_q nvq = 0 then
        (Blocked, nvq, [Lock, Wait getcv])
      else if \<not> in_bounds (head nvq) (queue nvq) then
        (Panicked IndexOutOfRange, nvq, [Lock, Unlock])
      else
        let value = queue nvq ! nat (head nvq) in
        if capacity nvq = 0 then (Panicked IntegerDivideByZero, nvq, [Lock, Unlock])
        else
          let nvq1 = nvq\<lparr>head := go_rem (head nvq + 1) (capacity nvq)\<rparr>;
              nvq2 = nvq1\<lparr>length_q := length_q nvq1 - 1\<rparr>
          in (Returned value, nvq2, [Lock, Signal putcv, Unlock]))"

text \<open>\<open>func (nvq *NativeIntQ) TryGet() (int, error)\<close>. The test is \<open>length > 0\<close>; the
  \<open>Signal\<close> stands after the \<open>if\<close>/\<open>else\<close>, so both branches reach it.\<close>

definition TryGet :: "NativeIntQ \<Rightarrow> (int \<times> go_error option) outcome \<times> NativeIntQ \<times> sync_event list" where
  "TryGet nvq =
     (if length_q nvq > 0 then
        if \<not> in_bounds (head nvq) (queue nvq) then
          (Panicked IndexOutOfRange, nvq, [Lock, Unlock])
        else
          let value = queue nvq ! nat (head nvq) in
          if capacity nvq = 0 then (Panicked IntegerDivideByZero, nvq, [Lock, Unlock])
          else
            let nvq1 = nvq\<lparr>head := go_rem (head nvq + 1) (capacity nvq)\<rparr>;
                nvq2 = nvq1\<lparr>length_q := length_q nvq1 - 1\<rparr>
            in (Returned (value, None), nvq2, [Lock, Signal putcv, Unlock])
      else
        (Returned (0, Some (errors_New ''queue is empty'')), nvq,
         [Lock, Signal putcv, Unlock]))"

text \<open>\<open>Len\<close>, \<open>Cap\<close>, \<open>Close\<close> and \<open>String\<close> take no lock and change nothing.
  \<open>Cap\<close> is \<open>cap(nvq.queue)\<close>, not the field \<open>capacity\<close>.\<close>

definition Len :: "NativeIntQ \<Rightarrow> int" where
  "Len nvq = length_q nvq"

definition Cap :: "NativeIntQ \<Rightarrow> int" where
  "Cap nvq = int (length (queue nvq))"

definition Close :: "NativeIntQ \<Rightarrow> NativeIntQ" where
  "Close nvq = nvq"

definition String :: "NativeIntQ \<Rightarrow> string" where
  "String nvq = ''Native Len:'' @ fmt_v (Len nvq) @ '' Cap:'' @ fmt_v (Cap nvq)"

section \<open>One goroutine calling the queue\<close>

text \<open>
  A client that calls the queue from one goroutine: the calls it makes, what each
  gives back, and the run of a list of calls. A call that blocks or panics ends the run
  (the goroutine does not reach its next call); the state is then the queue's state at
  that moment.
\<close>

datatype call =
  CallTryPut int | CallPut int | CallGet | CallTryGet | CallLen | CallCap | CallClose | CallString

datatype ret =
  RetError "go_error option" | RetUnit | RetInt int | RetIntError int "go_error option"
  | RetString string

fun returning :: "('a \<Rightarrow> ret) \<Rightarrow> 'a outcome \<times> NativeIntQ \<times> sync_event list
    \<Rightarrow> ret outcome \<times> NativeIntQ \<times> sync_event list" where
  "returning f (Returned x, nvq, es) = (Returned (f x), nvq, es)"
| "returning f (Blocked, nvq, es) = (Blocked, nvq, es)"
| "returning f (Panicked p, nvq, es) = (Panicked p, nvq, es)"

fun exec :: "call \<Rightarrow> NativeIntQ \<Rightarrow> ret outcome \<times> NativeIntQ \<times> sync_event list" where
  "exec (CallTryPut value) nvq = returning RetError (TryPut value nvq)"
| "exec (CallPut value) nvq = returning (\<lambda>_. RetUnit) (Put value nvq)"
| "exec CallGet nvq = returning RetInt (Get nvq)"
| "exec CallTryGet nvq = returning (\<lambda>(value, err). RetIntError value err) (TryGet nvq)"
| "exec CallLen nvq = (Returned (RetInt (Len nvq)), nvq, [])"
| "exec CallCap nvq = (Returned (RetInt (Cap nvq)), nvq, [])"
| "exec CallClose nvq = (Returned RetUnit, Close nvq, [])"
| "exec CallString nvq = (Returned (RetString (String nvq)), nvq, [])"

fun run :: "NativeIntQ \<Rightarrow> call list \<Rightarrow> ret outcome list \<times> NativeIntQ" where
  "run nvq [] = ([], nvq)"
| "run nvq (c # cs) =
     (case exec c nvq of
        (Returned r, nvq', es) \<Rightarrow>
          (case run nvq' cs of (rs, nvq'') \<Rightarrow> (Returned r # rs, nvq''))
      | (Blocked, nvq', es) \<Rightarrow> ([Blocked], nvq')
      | (Panicked p, nvq', es) \<Rightarrow> ([Panicked p], nvq'))"

text \<open>The state a call leaves behind.\<close>

definition state_after :: "call \<Rightarrow> NativeIntQ \<Rightarrow> NativeIntQ" where
  "state_after c nvq = fst (snd (exec c nvq))"

section \<open>The structural invariant\<close>

text \<open>
  The invariant of the data model: the buffer has \<open>capacity\<close> slots,
  \<open>0 \<le> length \<le> capacity\<close>, \<open>head\<close> and \<open>tail\<close> are in \<open>[0, capacity)\<close>, and
  \<open>tail = (head + length) mod capacity\<close>.
\<close>

definition invariant :: "NativeIntQ \<Rightarrow> bool" where
  "invariant nvq =
     (int (length (queue nvq)) = capacity nvq \<and>
      0 \<le> length_q nvq \<and> length_q nvq \<le> capacity nvq \<and>
      0 \<le> head nvq \<and> head nvq < capacity nvq \<and>
      0 \<le> tail nvq \<and> tail nvq < capacity nvq \<and>
      tail nvq = (head nvq + length_q nvq) mod capacity nvq)"

section \<open>The reference FIFO\<close>

text \<open>
  The values the queue holds, oldest first: the \<open>length\<close> slots of the circular
  buffer from \<open>head\<close> on, wrapping at \<open>capacity\<close>.
\<close>

definition contents :: "NativeIntQ \<Rightarrow> int list" where
  "contents nvq =
     map (\<lambda>i. queue nvq ! nat ((head nvq + int i) mod capacity nvq))
       [0 ..< nat (length_q nvq)]"

text \<open>
  The reference the queue is compared with: a list of at most \<open>n\<close> values, oldest
  first. An insertion appends at the end unless the list has \<open>n\<close> elements, a removal
  takes the first element unless the list is empty; the blocking operations block
  where the non-blocking ones report an error. This definition follows the description
  of the operations, not the code; only its diagnostic string is written as the code
  formats it (claim C10 is about that format).
\<close>

fun fifo_exec :: "int \<Rightarrow> call \<Rightarrow> int list \<Rightarrow> ret outcome \<times> int list" where
  "fifo_exec n (CallTryPut value) xs =
     (if int (length xs) = n then (Returned (RetError (Some (errors_New ''queue is full''))), xs)
      else (Returned (RetError None), xs @ [value]))"
| "fifo_exec n (CallPut value) xs =
     (if int (length xs) = n then (Blocked, xs) else (Returned RetUnit, xs @ [value]))"
| "fifo_exec n CallGet xs =
     (case xs of [] \<Rightarrow> (Blocked, xs) | x # xs' \<Rightarrow> (Returned (RetInt x), xs'))"
| "fifo_exec n CallTryGet xs =
     (case xs of
        [] \<Rightarrow> (Returned (RetIntError 0 (Some (errors_New ''queue is empty''))), xs)
      | x # xs' \<Rightarrow> (Returned (RetIntError x None), xs'))"
| "fifo_exec n CallLen xs = (Returned (RetInt (int (length xs))), xs)"
| "fifo_exec n CallCap xs = (Returned (RetInt n), xs)"
| "fifo_exec n CallClose xs = (Returned RetUnit, xs)"
| "fifo_exec n CallString xs =
     (Returned (RetString (''Native Len:'' @ fmt_v (int (length xs)) @ '' Cap:'' @ fmt_v n)), xs)"

fun fifo_run :: "int \<Rightarrow> int list \<Rightarrow> call list \<Rightarrow> ret outcome list \<times> int list" where
  "fifo_run n xs [] = ([], xs)"
| "fifo_run n xs (c # cs) =
     (case fifo_exec n c xs of
        (Returned r, xs') \<Rightarrow>
          (case fifo_run n xs' cs of (rs, xs'') \<Rightarrow> (Returned r # rs, xs''))
      | (Blocked, xs') \<Rightarrow> ([Blocked], xs')
      | (Panicked p, xs') \<Rightarrow> ([Panicked p], xs'))"

text \<open>
  The history of a run, read off the calls and what they gave back: the value of each
  insertion that succeeded, and the value of each removal that succeeded.
\<close>

fun put_value :: "call \<times> ret outcome \<Rightarrow> int list" where
  "put_value (CallTryPut value, Returned (RetError None)) = [value]"
| "put_value (CallPut value, Returned RetUnit) = [value]"
| "put_value _ = []"

fun got_value :: "call \<times> ret outcome \<Rightarrow> int list" where
  "got_value (CallGet, Returned (RetInt value)) = [value]"
| "got_value (CallTryGet, Returned (RetIntError value None)) = [value]"
| "got_value _ = []"

definition enqueued :: "call list \<Rightarrow> ret outcome list \<Rightarrow> int list" where
  "enqueued cs rs = concat (map put_value (zip cs rs))"

definition dequeued :: "call list \<Rightarrow> ret outcome list \<Rightarrow> int list" where
  "dequeued cs rs = concat (map got_value (zip cs rs))"

section \<open>Predicates on calls and on what they give back\<close>

text \<open>The non-blocking calls, and the error each reports when it fails.\<close>

fun is_try :: "call \<Rightarrow> bool" where
  "is_try (CallTryPut value) = True"
| "is_try CallTryGet = True"
| "is_try _ = False"

fun try_failure :: "call \<Rightarrow> ret outcome" where
  "try_failure (CallTryPut value) = Returned (RetError (Some (errors_New ''queue is full'')))"
| "try_failure c = Returned (RetIntError 0 (Some (errors_New ''queue is empty'')))"

text \<open>An outcome is free of faults when it is no panic and the error it carries, if
  any, is one of the queue's two: full, from \<open>TryPut\<close>, or empty, from \<open>TryGet\<close>.\<close>

fun no_fault :: "ret outcome \<Rightarrow> bool" where
  "no_fault (Panicked p) = False"
| "no_fault (Returned (RetError (Some e))) = (e = errors_New ''queue is full'')"
| "no_fault (Returned (RetIntError value (Some e))) = (e = errors_New ''queue is empty'')"
| "no_fault _ = True"

section \<open>What each operation does\<close>

text \<open>On a non-negative dividend and a positive divisor Go's \<open>%\<close> is the
  mathematical remainder.\<close>

lemma go_rem_nonneg: "0 \<le> a \<Longrightarrow> 0 < b \<Longrightarrow> go_rem a b = a mod b"
  by (simp add: go_rem_def sgn_if)

lemma TryPut_full:
  "length_q nvq = capacity nvq \<Longrightarrow>
   TryPut v nvq = (Returned (Some (errors_New ''queue is full'')), nvq, [Lock, Unlock])"
  by (simp add: TryPut_def)

lemma TryPut_room:
  assumes "invariant nvq" and "length_q nvq < capacity nvq"
  shows "TryPut v nvq =
    (Returned None,
     nvq\<lparr>queue := (queue nvq)[nat (tail nvq) := v],
         tail := (tail nvq + 1) mod capacity nvq,
         length_q := length_q nvq + 1\<rparr>,
     [Lock, Signal getcv, Unlock])"
  using assms by (simp add: TryPut_def invariant_def in_bounds_def go_rem_nonneg)

lemma Put_full:
  "length_q nvq = capacity nvq \<Longrightarrow> Put v nvq = (Blocked, nvq, [Lock, Wait putcv])"
  by (simp add: Put_def)

lemma Put_room:
  assumes "invariant nvq" and "length_q nvq < capacity nvq"
  shows "Put v nvq =
    (Returned (),
     nvq\<lparr>queue := (queue nvq)[nat (tail nvq) := v],
         tail := (tail nvq + 1) mod capacity nvq,
         length_q := length_q nvq + 1\<rparr>,
     [Lock, Signal getcv, Unlock])"
  using assms by (simp add: Put_def invariant_def in_bounds_def go_rem_nonneg)

lemma Get_empty:
  "length_q nvq = 0 \<Longrightarrow> Get nvq = (Blocked, nvq, [Lock, Wait getcv])"
  by (simp add: Get_def)

lemma Get_some:
  assumes "invariant nvq" and "0 < length_q nvq"
  shows "Get nvq =
    (Returned (queue nvq ! nat (head nvq)),
     nvq\<lparr>head := (head nvq + 1) mod capacity nvq, length_q := length_q nvq - 1\<rparr>,
     [Lock, Signal putcv, Unlock])"
  using assms by (simp add: Get_def invariant_def in_bounds_def go_rem_nonneg)

lemma TryGet_empty:
  "length_q nvq \<le> 0 \<Longrightarrow>
   TryGet nvq = (Returned (0, Some (errors_New ''queue is empty'')), nvq,
                 [Lock, Signal putcv, Unlock])"
  by (simp add: TryGet_def)

lemma TryGet_some:
  assumes "invariant nvq" and "0 < length_q nvq"
  shows "TryGet nvq =
    (Returned (queue nvq ! nat (head nvq), None),
     nvq\<lparr>head := (head nvq + 1) mod capacity nvq, length_q := length_q nvq - 1\<rparr>,
     [Lock, Signal putcv, Unlock])"
  using assms by (simp add: TryGet_def invariant_def in_bounds_def go_rem_nonneg)

lemma invariant_insert:
  assumes "invariant nvq" and "length_q nvq < capacity nvq"
  shows "invariant (nvq\<lparr>queue := (queue nvq)[nat (tail nvq) := v],
         tail := (tail nvq + 1) mod capacity nvq,
         length_q := length_q nvq + 1\<rparr>)"
proof -
  have "(tail nvq + 1) mod capacity nvq = (head nvq + (length_q nvq + 1)) mod capacity nvq"
    using assms by (simp add: invariant_def add.assoc [symmetric] mod_add_left_eq)
  then show ?thesis using assms by (simp add: invariant_def)
qed

lemma invariant_remove:
  assumes "invariant nvq" and "0 < length_q nvq"
  shows "invariant (nvq\<lparr>head := (head nvq + 1) mod capacity nvq,
         length_q := length_q nvq - 1\<rparr>)"
proof -
  have "tail nvq = ((head nvq + 1) mod capacity nvq + (length_q nvq - 1)) mod capacity nvq"
    using assms by (simp add: invariant_def mod_add_left_eq)
  then show ?thesis using assms by (simp add: invariant_def)
qed

lemma invariant_exec:
  assumes "invariant nvq"
  shows "invariant (state_after c nvq)"
proof (cases c)
  case (CallTryPut v)
  show ?thesis
  proof (cases "length_q nvq = capacity nvq")
    case True
    then show ?thesis using assms CallTryPut by (simp add: state_after_def TryPut_full)
  next
    case False
    then have "length_q nvq < capacity nvq" using assms by (simp add: invariant_def)
    then show ?thesis using assms CallTryPut invariant_insert [OF assms]
      by (simp add: state_after_def TryPut_room)
  qed
next
  case (CallPut v)
  show ?thesis
  proof (cases "length_q nvq = capacity nvq")
    case True
    then show ?thesis using assms CallPut by (simp add: state_after_def Put_full)
  next
    case False
    then have "length_q nvq < capacity nvq" using assms by (simp add: invariant_def)
    then show ?thesis using assms CallPut invariant_insert [OF assms]
      by (simp add: state_after_def Put_room)
  qed
next
  case CallGet
  show ?thesis
  proof (cases "length_q nvq = 0")
    case True
    then show ?thesis using assms CallGet by (simp add: state_after_def Get_empty)
  next
    case False
    then have "0 < length_q nvq" using assms by (simp add: invariant_def)
    then show ?thesis using assms CallGet invariant_remove [OF assms]
      by (simp add: state_after_def Get_some)
  qed
next
  case CallTryGet
  show ?thesis
  proof (cases "length_q nvq = 0")
    case True
    then show ?thesis using assms CallTryGet by (simp add: state_after_def TryGet_empty)
  next
    case False
    then have "0 < length_q nvq" using assms by (simp add: invariant_def)
    then show ?thesis using assms CallTryGet invariant_remove [OF assms]
      by (simp add: state_after_def TryGet_some)
  qed
qed (use assms in \<open>simp_all add: state_after_def Close_def\<close>)

section \<open>The buffer as a list\<close>

lemma length_contents: "length (contents nvq) = nat (length_q nvq)"
  by (simp add: contents_def)

lemma contents_insert:
  assumes "invariant nvq" and "length_q nvq < capacity nvq"
  shows "contents (nvq\<lparr>queue := (queue nvq)[nat (tail nvq) := v],
         tail := (tail nvq + 1) mod capacity nvq,
         length_q := length_q nvq + 1\<rparr>) = contents nvq @ [v]"
proof -
  let ?c = "capacity nvq" and ?h = "head nvq" and ?l = "length_q nvq"
  have cpos: "0 < ?c" and l0: "0 \<le> ?l" and t: "tail nvq = (?h + ?l) mod ?c"
    and len: "int (length (queue nvq)) = ?c" and tb: "0 \<le> tail nvq" "tail nvq < ?c"
    using assms by (simp_all add: invariant_def)
  have upto: "[0 ..< nat (?l + 1)] = [0 ..< nat ?l] @ [nat ?l]"
    using l0 by (simp add: nat_add_distrib)
  have other: "(queue nvq)[nat (tail nvq) := v] ! nat ((?h + int i) mod ?c)
      = queue nvq ! nat ((?h + int i) mod ?c)" if "i < nat ?l" for i
  proof -
    have "(?h + int i) mod ?c \<noteq> (?h + ?l) mod ?c"
    proof
      assume "(?h + int i) mod ?c = (?h + ?l) mod ?c"
      then have "?c dvd (?h + ?l) - (?h + int i)"
        by (metis mod_eq_dvd_iff)
      then have "?c dvd ?l - int i" by simp
      moreover have "0 < ?l - int i" "?l - int i < ?c" using that assms(2) by linarith+
      ultimately show False
        using zdvd_not_zless by blast
    qed
    moreover have "0 \<le> (?h + int i) mod ?c" using cpos by simp
    ultimately have "nat (tail nvq) \<noteq> nat ((?h + int i) mod ?c)"
      using t tb by (simp add: eq_nat_nat_iff)
    then show ?thesis by simp
  qed
  have last: "(queue nvq)[nat (tail nvq) := v] ! nat ((?h + ?l) mod ?c) = v"
    using t tb len by simp
  show ?thesis
    using l0 by (simp add: contents_def upto other last)
qed

lemma contents_remove:
  assumes "invariant nvq" and "0 < length_q nvq"
  shows "contents nvq = queue nvq ! nat (head nvq) #
     contents (nvq\<lparr>head := (head nvq + 1) mod capacity nvq, length_q := length_q nvq - 1\<rparr>)"
proof -
  let ?c = "capacity nvq" and ?h = "head nvq" and ?l = "length_q nvq"
  have cpos: "0 < ?c" and hb: "0 \<le> ?h" "?h < ?c"
    using assms by (simp_all add: invariant_def)
  have "nat ?l = Suc (nat (?l - 1))"
    using assms(2) by simp
  then have upto: "[0 ..< nat ?l] = 0 # map Suc [0 ..< nat (?l - 1)]"
    by (simp add: upt_conv_Cons map_Suc_upt del: upt_Suc)
  have shift: "((?h + 1) mod ?c + int i) mod ?c = (?h + int (Suc i)) mod ?c" for i
    by (simp add: mod_add_left_eq add.assoc)
  show ?thesis
    using hb by (simp add: contents_def upto shift comp_def del: upt_Suc)
qed


section \<open>One call on a well-formed queue\<close>

text \<open>On a state that satisfies the invariant, the index expressions are in range and
  the divisor is positive: no branch of the code that panics is taken.\<close>

lemma exec_cases:
  assumes "invariant nvq"
  shows "exec c nvq =
    (case c of
       CallTryPut v \<Rightarrow>
         if length_q nvq = capacity nvq
         then (Returned (RetError (Some (errors_New ''queue is full''))), nvq, [Lock, Unlock])
         else (Returned (RetError None),
               nvq\<lparr>queue := (queue nvq)[nat (tail nvq) := v],
                   tail := (tail nvq + 1) mod capacity nvq,
                   length_q := length_q nvq + 1\<rparr>,
               [Lock, Signal getcv, Unlock])
     | CallPut v \<Rightarrow>
         if length_q nvq = capacity nvq then (Blocked, nvq, [Lock, Wait putcv])
         else (Returned RetUnit,
               nvq\<lparr>queue := (queue nvq)[nat (tail nvq) := v],
                   tail := (tail nvq + 1) mod capacity nvq,
                   length_q := length_q nvq + 1\<rparr>,
               [Lock, Signal getcv, Unlock])
     | CallGet \<Rightarrow>
         if length_q nvq = 0 then (Blocked, nvq, [Lock, Wait getcv])
         else (Returned (RetInt (queue nvq ! nat (head nvq))),
               nvq\<lparr>head := (head nvq + 1) mod capacity nvq, length_q := length_q nvq - 1\<rparr>,
               [Lock, Signal putcv, Unlock])
     | CallTryGet \<Rightarrow>
         if length_q nvq = 0
         then (Returned (RetIntError 0 (Some (errors_New ''queue is empty''))), nvq,
               [Lock, Signal putcv, Unlock])
         else (Returned (RetIntError (queue nvq ! nat (head nvq)) None),
               nvq\<lparr>head := (head nvq + 1) mod capacity nvq, length_q := length_q nvq - 1\<rparr>,
               [Lock, Signal putcv, Unlock])
     | CallLen \<Rightarrow> (Returned (RetInt (length_q nvq)), nvq, [])
     | CallCap \<Rightarrow> (Returned (RetInt (capacity nvq)), nvq, [])
     | CallClose \<Rightarrow> (Returned RetUnit, nvq, [])
     | CallString \<Rightarrow>
         (Returned (RetString (''Native Len:'' @ fmt_v (length_q nvq) @ '' Cap:'' @
            fmt_v (capacity nvq))), nvq, []))"
proof -
  have room: "length_q nvq < capacity nvq" if "length_q nvq \<noteq> capacity nvq"
    using that assms by (simp add: invariant_def)
  have some: "0 < length_q nvq" if "length_q nvq \<noteq> 0"
    using that assms by (simp add: invariant_def)
  have cap: "int (length (queue nvq)) = capacity nvq"
    using assms by (simp add: invariant_def)
  show ?thesis
  proof (cases c)
    case (CallTryPut v)
    then show ?thesis using assms room by (simp add: TryPut_full TryPut_room)
  next
    case (CallPut v)
    then show ?thesis using assms room by (simp add: Put_full Put_room)
  next
    case CallGet
    then show ?thesis using assms some by (simp add: Get_empty Get_some)
  next
    case CallTryGet
    then show ?thesis using assms some by (simp add: TryGet_empty TryGet_some)
  qed (simp_all add: Len_def Cap_def Close_def String_def cap)
qed

lemma exec_fifo:
  assumes "invariant nvq"
  shows "fifo_exec (capacity nvq) c (contents nvq)
    = (fst (exec c nvq), contents (state_after c nvq))"
proof -
  have len: "int (length (contents nvq)) = length_q nvq"
    using assms by (simp add: length_contents invariant_def)
  have room: "length_q nvq < capacity nvq" if "length_q nvq \<noteq> capacity nvq"
    using that assms by (simp add: invariant_def)
  have some: "0 < length_q nvq" if "length_q nvq \<noteq> 0"
    using that assms by (simp add: invariant_def)
  have nil: "contents nvq = []" if "length_q nvq = 0"
    using that by (simp add: contents_def)
  show ?thesis
  proof (cases c)
    case (CallTryPut v)
    then show ?thesis
      using room contents_insert [OF assms]
      by (simp add: state_after_def exec_cases [OF assms] len)
  next
    case (CallPut v)
    then show ?thesis
      using room contents_insert [OF assms]
      by (simp add: state_after_def exec_cases [OF assms] len)
  next
    case CallGet
    then show ?thesis
      using some contents_remove [OF assms] nil
      by (simp add: state_after_def exec_cases [OF assms])
  next
    case CallTryGet
    then show ?thesis
      using some contents_remove [OF assms] nil
      by (simp add: state_after_def exec_cases [OF assms])
  qed (simp_all add: state_after_def exec_cases [OF assms] len)
qed

lemma exec_history:
  assumes "invariant nvq"
  shows "contents nvq @ put_value (c, fst (exec c nvq))
    = got_value (c, fst (exec c nvq)) @ contents (state_after c nvq)"
proof -
  have room: "length_q nvq < capacity nvq" if "length_q nvq \<noteq> capacity nvq"
    using that assms by (simp add: invariant_def)
  have some: "0 < length_q nvq" if "length_q nvq \<noteq> 0"
    using that assms by (simp add: invariant_def)
  show ?thesis
  proof (cases c)
    case (CallTryPut v)
    then show ?thesis
      using room contents_insert [OF assms]
      by (simp add: state_after_def exec_cases [OF assms])
  next
    case (CallPut v)
    then show ?thesis
      using room contents_insert [OF assms]
      by (simp add: state_after_def exec_cases [OF assms])
  next
    case CallGet
    then show ?thesis
      using some contents_remove [OF assms]
      by (simp add: state_after_def exec_cases [OF assms])
  next
    case CallTryGet
    then show ?thesis
      using some contents_remove [OF assms]
      by (simp add: state_after_def exec_cases [OF assms])
  qed (simp_all add: state_after_def exec_cases [OF assms])
qed

lemma exec_no_panic:
  assumes "invariant nvq"
  shows "fst (exec c nvq) \<noteq> Panicked p"
  by (cases c) (simp_all add: exec_cases [OF assms])

lemma exec_no_fault:
  assumes "invariant nvq"
  shows "no_fault (fst (exec c nvq))"
  by (cases c) (simp_all add: exec_cases [OF assms])

section \<open>Runs of calls\<close>

lemma run_Cons:
  "run nvq (c # cs) =
     (case fst (exec c nvq) of
        Returned r \<Rightarrow>
          (Returned r # fst (run (state_after c nvq) cs), snd (run (state_after c nvq) cs))
      | Blocked \<Rightarrow> ([Blocked], state_after c nvq)
      | Panicked p \<Rightarrow> ([Panicked p], state_after c nvq))"
  by (simp add: state_after_def split: prod.splits outcome.splits)

lemma fifo_run_Cons:
  "fifo_run n xs (c # cs) =
     (case fst (fifo_exec n c xs) of
        Returned r \<Rightarrow>
          (Returned r # fst (fifo_run n (snd (fifo_exec n c xs)) cs),
           snd (fifo_run n (snd (fifo_exec n c xs)) cs))
      | Blocked \<Rightarrow> ([Blocked], snd (fifo_exec n c xs))
      | Panicked p \<Rightarrow> ([Panicked p], snd (fifo_exec n c xs)))"
  by (simp split: prod.splits outcome.splits)

lemma capacity_exec: "capacity (state_after c nvq) = capacity nvq"
  by (cases c)
    (simp_all add: state_after_def TryPut_def Put_def Get_def TryGet_def Close_def Let_def
      split: if_splits)

lemma buffer_exec: "length (queue (state_after c nvq)) = length (queue nvq)"
  by (cases c)
    (simp_all add: state_after_def TryPut_def Put_def Get_def TryGet_def Close_def Let_def
      split: if_splits)

lemma run_invariant: "invariant nvq \<Longrightarrow> invariant (snd (run nvq cs))"
proof (induction cs arbitrary: nvq)
  case Nil
  then show ?case by simp
next
  case (Cons c cs)
  from Cons.prems have "invariant (state_after c nvq)" by (rule invariant_exec)
  with Cons.IH show ?case
    by (simp only: run_Cons split: outcome.split) simp
qed

lemma run_fifo:
  "invariant nvq \<Longrightarrow>
   fifo_run (capacity nvq) (contents nvq) cs = (fst (run nvq cs), contents (snd (run nvq cs)))"
proof (induction cs arbitrary: nvq)
  case Nil
  then show ?case by simp
next
  case (Cons c cs)
  let ?nvq' = "state_after c nvq"
  have inv': "invariant ?nvq'" using Cons.prems by (rule invariant_exec)
  have step: "fifo_exec (capacity nvq) c (contents nvq) = (fst (exec c nvq), contents ?nvq')"
    using Cons.prems by (rule exec_fifo)
  have IH: "fifo_run (capacity nvq) (contents ?nvq') cs
      = (fst (run ?nvq' cs), contents (snd (run ?nvq' cs)))"
    using Cons.IH [OF inv'] by (simp add: capacity_exec)
  show ?case
    by (simp only: run_Cons fifo_run_Cons step fst_conv snd_conv IH split: outcome.split) simp
qed

lemma run_history:
  "invariant nvq \<Longrightarrow>
   contents nvq @ enqueued cs (fst (run nvq cs))
     = dequeued cs (fst (run nvq cs)) @ contents (snd (run nvq cs))"
proof (induction cs arbitrary: nvq)
  case Nil
  then show ?case by (simp add: enqueued_def dequeued_def)
next
  case (Cons c cs)
  let ?nvq' = "state_after c nvq" and ?o = "fst (exec c nvq)"
  have inv': "invariant ?nvq'" using Cons.prems by (rule invariant_exec)
  have step: "contents nvq @ put_value (c, ?o) = got_value (c, ?o) @ contents ?nvq'"
    using Cons.prems by (rule exec_history)
  have IH: "contents ?nvq' @ enqueued cs (fst (run ?nvq' cs))
      = dequeued cs (fst (run ?nvq' cs)) @ contents (snd (run ?nvq' cs))"
    using Cons.IH [OF inv'] .
  show ?case
  proof (cases ?o)
    case (Returned r)
    have "contents nvq @ enqueued (c # cs) (fst (run nvq (c # cs)))
        = (contents nvq @ put_value (c, ?o)) @ enqueued cs (fst (run ?nvq' cs))"
      by (simp add: run_Cons Returned enqueued_def del: run.simps)
    also have "\<dots> = got_value (c, ?o) @ (contents ?nvq' @ enqueued cs (fst (run ?nvq' cs)))"
      by (simp only: step append_assoc)
    also have "\<dots> = dequeued (c # cs) (fst (run nvq (c # cs))) @ contents (snd (run nvq (c # cs)))"
      by (simp add: IH run_Cons Returned dequeued_def del: run.simps)
    finally show ?thesis .
  next
    case Blocked
    then show ?thesis using step by (simp add: run_Cons enqueued_def dequeued_def del: run.simps)
  next
    case (Panicked p)
    then show ?thesis using exec_no_panic [OF Cons.prems] by simp
  qed
qed

lemma run_no_fault: "invariant nvq \<Longrightarrow> list_all no_fault (fst (run nvq cs))"
proof (induction cs arbitrary: nvq)
  case Nil
  then show ?case by simp
next
  case (Cons c cs)
  have "invariant (state_after c nvq)" using Cons.prems by (rule invariant_exec)
  then have "list_all no_fault (fst (run (state_after c nvq) cs))" by (rule Cons.IH)
  moreover have "no_fault (fst (exec c nvq))" using Cons.prems by (rule exec_no_fault)
  ultimately show ?case
    by (simp only: run_Cons split: outcome.split) auto
qed

lemma invariant_New:
  "0 < n \<Longrightarrow> NewNativeQueue rt n = Inr nvq \<Longrightarrow> invariant nvq"
  by (auto simp: NewNativeQueue_def invariant_def split: if_splits)

lemma contents_New: "NewNativeQueue rt n = Inr nvq \<Longrightarrow> contents nvq = []"
  by (auto simp: NewNativeQueue_def contents_def split: if_splits)

section \<open>The queue of capacity zero\<close>

text \<open>With \<open>capacity = 0\<close> and \<open>length = 0\<close> the test \<open>length == capacity\<close> of
  \<open>TryPut\<close> and \<open>Put\<close> holds and the test \<open>length > 0\<close> of \<open>TryGet\<close> fails, so
  no call reaches an index expression or the remainder.\<close>

lemma zero_capacity_exec:
  assumes "capacity nvq = 0" and "length_q nvq = 0"
  shows "state_after c nvq = nvq" and "no_fault (fst (exec c nvq))"
    and "is_try c \<Longrightarrow> fst (exec c nvq) = try_failure c"
  using assms
  by (cases c; simp add: state_after_def TryPut_def Put_def Get_def TryGet_def Close_def)+

lemma zero_capacity_run:
  assumes "capacity nvq = 0" and "length_q nvq = 0"
  shows "snd (run nvq cs) = nvq" and "list_all no_fault (fst (run nvq cs))"
    and "list_all is_try cs \<Longrightarrow> fst (run nvq cs) = map try_failure cs"
proof -
  show "snd (run nvq cs) = nvq"
    by (induction cs) (simp_all add: run_Cons zero_capacity_exec(1) [OF assms] del: run.simps(2)
        split: outcome.split)
  show "list_all no_fault (fst (run nvq cs))"
  proof (induction cs)
    case Nil
    show ?case by simp
  next
    case (Cons c cs)
    then show ?case
      using zero_capacity_exec(2) [OF assms, of c]
      by (simp only: run_Cons zero_capacity_exec(1) [OF assms] split: outcome.split) auto
  qed
  show "fst (run nvq cs) = map try_failure cs" if "list_all is_try cs"
    using that
  proof (induction cs)
    case Nil
    show ?case by simp
  next
    case (Cons c cs)
    then have "fst (exec c nvq) = try_failure c" and "fst (run nvq cs) = map try_failure cs"
      using zero_capacity_exec(3) [OF assms] by simp_all
    moreover have "\<exists>r. try_failure c = Returned r" by (cases c) simp_all
    ultimately show ?case
      by (auto simp add: run_Cons zero_capacity_exec(1) [OF assms] simp del: run.simps(2))
  qed
qed

section \<open>What no call changes\<close>

lemma capacity_run: "capacity (snd (run nvq cs)) = capacity nvq"
  by (induction cs arbitrary: nvq)
    (simp_all add: run_Cons capacity_exec del: run.simps(2) split: outcome.split)

lemma buffer_run: "length (queue (snd (run nvq cs))) = length (queue nvq)"
  by (induction cs arbitrary: nvq)
    (simp_all add: run_Cons buffer_exec del: run.simps(2) split: outcome.split)

lemma New_fields:
  "0 \<le> n \<Longrightarrow> fits rt n \<Longrightarrow> NewNativeQueue rt n =
     Inr \<lparr>queue = replicate (nat n) 0, head = 0, tail = 0, length_q = 0, capacity = n\<rparr>"
  by (simp add: NewNativeQueue_def fits_def)

lemma New_built:
  assumes "NewNativeQueue rt n = Inr nvq"
  shows "0 \<le> n" and "fits rt n"
    and "nvq = \<lparr>queue = replicate (nat n) 0, head = 0, tail = 0, length_q = 0, capacity = n\<rparr>"
  using assms by (auto simp: NewNativeQueue_def fits_def split: if_splits)

lemma New_zero:
  "NewNativeQueue rt 0 = Inr \<lparr>queue = [], head = 0, tail = 0, length_q = 0, capacity = 0\<rparr>"
  by (simp add: NewNativeQueue_def)

lemma fits_sample: "n \<le> 134217728 \<Longrightarrow> fits sample_runtime n"
  by (simp add: fits_def sample_runtime_def)

section \<open>The states a queue can be in\<close>

text \<open>A queue built by \<open>NewNativeQueue\<close> and used through its operations satisfies the
  invariant, or it was built with capacity 0 and is still as it was built.\<close>

lemma reachable_cases:
  assumes "NewNativeQueue rt n = Inr q0"
  shows "invariant (snd (run q0 cs)) \<or>
         (capacity (snd (run q0 cs)) = 0 \<and> length_q (snd (run q0 cs)) = 0)"
proof (cases "n = 0")
  case True
  then have "capacity q0 = 0" "length_q q0 = 0"
    using New_built(3) [OF assms] by simp_all
  then show ?thesis by (simp add: zero_capacity_run(1))
next
  case False
  then have "0 < n" using New_built(1) [OF assms] by simp
  then show ?thesis using assms invariant_New run_invariant by blast
qed

section \<open>The claims\<close>

text \<open>
  Claim C1. A queue built with capacity \<open>n > 0\<close> (one the runtime can allocate) and
  called from one goroutine behaves
  as the reference list FIFO of at most \<open>n\<close> elements does: every run of calls gives
  back the same outcomes, call by call, and the values in the buffer, oldest first, are
  the reference list. So each removal that succeeds returns the oldest value inserted
  and not yet removed: the values inserted by successful \<open>Put\<close>/\<open>TryPut\<close> calls, in
  order, are the values returned by successful \<open>Get\<close>/\<open>TryGet\<close> calls, in order,
  followed by the values still in the queue. The values removed are a prefix of the
  values inserted, and the two sequences are equal when the queue is empty.
\<close>

theorem fifo_refinement:
  assumes "0 < n" and "fits rt n"
  shows "\<exists>q0. NewNativeQueue rt n = Inr q0 \<and>
    (\<forall>cs. fst (run q0 cs) = fst (fifo_run n [] cs) \<and>
          contents (snd (run q0 cs)) = snd (fifo_run n [] cs) \<and>
          enqueued cs (fst (run q0 cs))
            = dequeued cs (fst (run q0 cs)) @ contents (snd (run q0 cs)) \<and>
          dequeued cs (fst (run q0 cs))
            = take (length (dequeued cs (fst (run q0 cs)))) (enqueued cs (fst (run q0 cs))) \<and>
          (Len (snd (run q0 cs)) = 0 \<longrightarrow>
             dequeued cs (fst (run q0 cs)) = enqueued cs (fst (run q0 cs))))"
proof -
  from assms obtain q0 where new: "NewNativeQueue rt n = Inr q0" and cap: "capacity q0 = n"
    by (simp add: New_fields)
  have inv: "invariant q0" using assms(1) new by (rule invariant_New)
  have nil: "contents q0 = []" using new by (rule contents_New)
  have "fst (run q0 cs) = fst (fifo_run n [] cs) \<and>
        contents (snd (run q0 cs)) = snd (fifo_run n [] cs) \<and>
        enqueued cs (fst (run q0 cs))
          = dequeued cs (fst (run q0 cs)) @ contents (snd (run q0 cs)) \<and>
        dequeued cs (fst (run q0 cs))
          = take (length (dequeued cs (fst (run q0 cs)))) (enqueued cs (fst (run q0 cs))) \<and>
        (Len (snd (run q0 cs)) = 0 \<longrightarrow>
           dequeued cs (fst (run q0 cs)) = enqueued cs (fst (run q0 cs)))" for cs
  proof -
    have sim: "fifo_run n [] cs = (fst (run q0 cs), contents (snd (run q0 cs)))"
      using run_fifo [OF inv, of cs] by (simp add: cap nil)
    have hist: "enqueued cs (fst (run q0 cs))
        = dequeued cs (fst (run q0 cs)) @ contents (snd (run q0 cs))"
      using run_history [OF inv, of cs] by (simp add: nil)
    have "contents (snd (run q0 cs)) = []" if "Len (snd (run q0 cs)) = 0"
      using that by (simp add: Len_def contents_def)
    with sim hist show ?thesis by simp
  qed
  with new show ?thesis by blast
qed

theorem fifo_refinement_witness:
  "(0::int) < 2 \<and>
   fits sample_runtime 2 \<and>
   (\<exists>q0. NewNativeQueue sample_runtime 2 = Inr q0 \<and>
     fst (run q0 [CallPut 7, CallTryPut 8, CallTryPut 9, CallGet, CallPut 9, CallTryGet, CallGet])
       = fst (fifo_run 2 [] [CallPut 7, CallTryPut 8, CallTryPut 9, CallGet, CallPut 9, CallTryGet, CallGet]) \<and>
     fst (run q0 [CallPut 7, CallTryPut 8, CallTryPut 9, CallGet, CallPut 9, CallTryGet, CallGet])
       = [Returned RetUnit, Returned (RetError None),
          Returned (RetError (Some (errors_New ''queue is full''))), Returned (RetInt 7),
          Returned RetUnit, Returned (RetIntError 8 None), Returned (RetInt 9)])"
proof -
  have pos: "(0::int) < 2" by simp
  have fit: "fits sample_runtime 2" by (simp add: fits_sample)
  from fifo_refinement [OF pos fit] obtain q0 where
    new: "NewNativeQueue sample_runtime 2 = Inr q0" and
    sim: "\<And>cs. fst (run q0 cs) = fst (fifo_run 2 [] cs)"
    by blast
  have "fst (fifo_run 2 [] [CallPut 7, CallTryPut 8, CallTryPut 9, CallGet, CallPut 9, CallTryGet, CallGet])
       = [Returned RetUnit, Returned (RetError None),
          Returned (RetError (Some (errors_New ''queue is full''))), Returned (RetInt 7),
          Returned RetUnit, Returned (RetIntError 8 None), Returned (RetInt 9)]"
    by simp
  with new sim pos fit show ?thesis by metis
qed

text \<open>
  Claim C2. For a queue built with capacity \<open>n > 0\<close> (one the runtime can allocate),
  the fresh queue satisfies the
  structural invariant (\<open>0 \<le> length \<le> capacity\<close>, \<open>head\<close> and \<open>tail\<close> in
  \<open>[0, capacity)\<close>, \<open>tail = (head + length) mod capacity\<close>, the buffer of
  \<open>capacity\<close> slots), each of the eight operations preserves it, and so it holds, with
  \<open>0 \<le> Len() \<le> Cap()\<close>, after every run of calls.
\<close>

theorem structural_invariant:
  assumes "0 < n" and "fits rt n"
  shows "\<exists>q0. NewNativeQueue rt n = Inr q0 \<and> invariant q0 \<and>
    (\<forall>c nvq. invariant nvq \<longrightarrow> invariant (state_after c nvq)) \<and>
    (\<forall>cs. invariant (snd (run q0 cs)) \<and>
          0 \<le> Len (snd (run q0 cs)) \<and> Len (snd (run q0 cs)) \<le> Cap (snd (run q0 cs)))"
proof -
  from assms obtain q0 where new: "NewNativeQueue rt n = Inr q0"
    by (simp add: New_fields)
  have inv: "invariant q0" using assms(1) new by (rule invariant_New)
  have "invariant (snd (run q0 cs)) \<and>
        0 \<le> Len (snd (run q0 cs)) \<and> Len (snd (run q0 cs)) \<le> Cap (snd (run q0 cs))" for cs
  proof -
    have "invariant (snd (run q0 cs))" using inv by (rule run_invariant)
    then show ?thesis by (simp add: invariant_def Len_def Cap_def)
  qed
  with new inv invariant_exec show ?thesis by blast
qed

theorem structural_invariant_witness:
  "(0::int) < 3 \<and>
   fits sample_runtime 3 \<and>
   (\<exists>q0. NewNativeQueue sample_runtime 3 = Inr q0 \<and>
      snd (run q0 [CallPut 1, CallPut 2, CallGet, CallTryPut 3, CallTryPut 4, CallTryGet])
        = \<lparr>queue = [4, 2, 3], head = 2, tail = 1, length_q = 2, capacity = 3\<rparr> \<and>
      invariant \<lparr>queue = [4, 2, 3], head = 2, tail = 1, length_q = 2, capacity = 3\<rparr> \<and>
      Len \<lparr>queue = [4, 2, 3], head = 2, tail = 1, length_q = 2, capacity = 3\<rparr> = 2 \<and>
      Cap \<lparr>queue = [4, 2, 3], head = 2, tail = 1, length_q = 2, capacity = 3\<rparr> = 3)"
proof -
  have pos: "(0::int) < 3" by simp
  have fit: "fits sample_runtime 3" by (simp add: fits_sample)
  from structural_invariant [OF pos fit] obtain q0 where
    new: "NewNativeQueue sample_runtime 3 = Inr q0" and
    inv: "\<And>cs. invariant (snd (run q0 cs))"
    by blast
  have q0: "q0 = \<lparr>queue = [0, 0, 0], head = 0, tail = 0, length_q = 0, capacity = 3\<rparr>"
    using New_built(3) [OF new] by (simp add: numeral_3_eq_3)
  have r: "snd (run q0 [CallPut 1, CallPut 2, CallGet, CallTryPut 3, CallTryPut 4, CallTryGet])
        = \<lparr>queue = [4, 2, 3], head = 2, tail = 1, length_q = 2, capacity = 3\<rparr>"
    unfolding q0
    by (simp add: Put_def Get_def TryPut_def TryGet_def in_bounds_def go_rem_def)
  show ?thesis
    using pos fit new r
      inv [of "[CallPut 1, CallPut 2, CallGet, CallTryPut 3, CallTryPut 4, CallTryGet]"]
    by (simp add: Len_def Cap_def)
qed


text \<open>
  Claim C3. On every state with \<open>length = capacity\<close>, \<open>TryPut\<close> returns the error
  "queue is full" and leaves the queue, and so \<open>Len()\<close>, as it was. On every state of a
  queue (one reached from \<open>NewNativeQueue\<close> by a run of calls) with
  \<open>length < capacity\<close>, \<open>TryPut\<close> writes the value at \<open>queue[tail]\<close>, sets \<open>tail\<close> to
  \<open>(tail + 1) mod capacity\<close>, increments \<open>length\<close> and returns \<open>nil\<close>.
\<close>

theorem TryPut_full_or_room:
  assumes "NewNativeQueue rt n = Inr q0" and "nvq = snd (run q0 cs)"
  shows "(\<forall>s. length_q s = capacity s \<longrightarrow>
            TryPut value s = (Returned (Some (errors_New ''queue is full'')), s, [Lock, Unlock]) \<and>
            Len (fst (snd (TryPut value s))) = Len s) \<and>
         (length_q nvq < capacity nvq \<longrightarrow>
            TryPut value nvq =
              (Returned None,
               nvq\<lparr>queue := (queue nvq)[nat (tail nvq) := value],
                   tail := (tail nvq + 1) mod capacity nvq,
                   length_q := length_q nvq + 1\<rparr>,
               [Lock, Signal getcv, Unlock]))"
proof -
  have "invariant nvq" if "length_q nvq < capacity nvq"
    using reachable_cases [OF assms(1), of cs] that assms(2) by auto
  then show ?thesis
    by (simp add: TryPut_full TryPut_room)
qed

theorem TryPut_full_or_room_witness:
  "NewNativeQueue sample_runtime 2
     = Inr \<lparr>queue = [0, 0], head = 0, tail = 0, length_q = 0, capacity = 2\<rparr> \<and>
   snd (run \<lparr>queue = [0, 0], head = 0, tail = 0, length_q = 0, capacity = 2\<rparr>
          [CallPut 5, CallGet, CallPut 6])
     = \<lparr>queue = [5, 6], head = 1, tail = 0, length_q = 1, capacity = 2\<rparr> \<and>
   TryPut 9 \<lparr>queue = [5, 6], head = 1, tail = 0, length_q = 1, capacity = 2\<rparr>
     = (Returned None, \<lparr>queue = [9, 6], head = 1, tail = 1, length_q = 2, capacity = 2\<rparr>,
        [Lock, Signal getcv, Unlock]) \<and>
   TryPut 4 \<lparr>queue = [9, 6], head = 1, tail = 1, length_q = 2, capacity = 2\<rparr>
     = (Returned (Some (errors_New ''queue is full'')),
        \<lparr>queue = [9, 6], head = 1, tail = 1, length_q = 2, capacity = 2\<rparr>, [Lock, Unlock])"
proof -
  let ?q0 = "\<lparr>queue = [0, 0], head = 0, tail = 0, length_q = 0, capacity = (2::int)\<rparr>"
  let ?q1 = "\<lparr>queue = [5, 6], head = 1, tail = 0, length_q = 1, capacity = (2::int)\<rparr>"
  let ?q2 = "\<lparr>queue = [9, 6], head = 1, tail = 1, length_q = 2, capacity = (2::int)\<rparr>"
  have new: "NewNativeQueue sample_runtime 2 = Inr ?q0"
    by (simp add: NewNativeQueue_def sample_runtime_def numeral_2_eq_2)
  have r: "?q1 = snd (run ?q0 [CallPut 5, CallGet, CallPut 6])"
    by (simp add: Put_def Get_def in_bounds_def go_rem_def)
  have "length_q ?q2 = capacity ?q2" and "length_q ?q1 < capacity ?q1" by simp_all
  with TryPut_full_or_room [OF new r, of 9] TryPut_full_or_room [OF new r, of 4]
  have "TryPut 9 ?q1 = (Returned None, ?q2, [Lock, Signal getcv, Unlock])"
    and "TryPut 4 ?q2 = (Returned (Some (errors_New ''queue is full'')), ?q2, [Lock, Unlock])"
    by simp_all
  with new r show ?thesis by simp
qed

text \<open>
  Claim C4. On an empty queue \<open>TryGet\<close> returns the error "queue is empty" and changes
  no field (lemma \<open>TryGet_empty\<close>), but it does issue a signal: \<open>nvq.putcv.Signal()\<close>
  stands after the \<open>if\<close>/\<open>else\<close> and runs on the empty branch too. On the fresh queue
  of capacity 1 the trace of \<open>TryGet\<close> is lock, signal on \<open>putcv\<close>, unlock; \<open>TryPut\<close>
  on a full queue, the mirror case, returns before its signal.
\<close>

theorem TryGet_empty_signals:
  "NewNativeQueue sample_runtime 1
     = Inr \<lparr>queue = [0], head = 0, tail = 0, length_q = 0, capacity = 1\<rparr> \<and>
   TryGet \<lparr>queue = [0], head = 0, tail = 0, length_q = 0, capacity = 1\<rparr>
     = (Returned (0, Some (errors_New ''queue is empty'')),
        \<lparr>queue = [0], head = 0, tail = 0, length_q = 0, capacity = 1\<rparr>,
        [Lock, Signal putcv, Unlock]) \<and>
   TryPut 1 \<lparr>queue = [1], head = 0, tail = 0, length_q = 1, capacity = 1\<rparr>
     = (Returned (Some (errors_New ''queue is full'')),
        \<lparr>queue = [1], head = 0, tail = 0, length_q = 1, capacity = 1\<rparr>,
        [Lock, Unlock])"
  by (simp add: NewNativeQueue_def sample_runtime_def TryGet_def TryPut_def)

text \<open>
  Claim C6. On a queue built with capacity 0, in every run of \<open>TryPut\<close> and \<open>TryGet\<close>
  calls each \<open>TryPut\<close> returns "queue is full" and each \<open>TryGet\<close> returns "queue is
  empty": every call returns (none panics on the remainder by zero, none blocks), and
  the queue ends as it was built.
\<close>

theorem zero_capacity_try_calls:
  assumes "NewNativeQueue rt 0 = Inr q0" and "list_all is_try cs"
  shows "run q0 cs = (map try_failure cs, q0)"
proof -
  have "capacity q0 = 0" and "length_q q0 = 0"
    using New_built(3) [OF assms(1)] by simp_all
  then have "snd (run q0 cs) = q0" and "fst (run q0 cs) = map try_failure cs"
    using assms(2) by (simp_all add: zero_capacity_run)
  then show ?thesis by (simp add: prod_eq_iff)
qed

theorem zero_capacity_try_calls_witness:
  "NewNativeQueue sample_runtime 0
     = Inr \<lparr>queue = [], head = 0, tail = 0, length_q = 0, capacity = 0\<rparr> \<and>
   list_all is_try [CallTryPut 5, CallTryGet, CallTryPut 6] \<and>
   run \<lparr>queue = [], head = 0, tail = 0, length_q = 0, capacity = 0\<rparr>
       [CallTryPut 5, CallTryGet, CallTryPut 6]
     = ([Returned (RetError (Some (errors_New ''queue is full''))),
         Returned (RetIntError 0 (Some (errors_New ''queue is empty''))),
         Returned (RetError (Some (errors_New ''queue is full'')))],
        \<lparr>queue = [], head = 0, tail = 0, length_q = 0, capacity = 0\<rparr>)"
proof -
  have new: "NewNativeQueue sample_runtime 0
      = Inr \<lparr>queue = [], head = 0, tail = 0, length_q = 0, capacity = 0\<rparr>"
    by (rule New_zero)
  have tries: "list_all is_try [CallTryPut 5, CallTryGet, CallTryPut 6]" by simp
  show ?thesis
    using new tries zero_capacity_try_calls [OF new tries] by simp
qed

text \<open>
  Claim C7, as stated, fails at size 0: \<open>NewNativeQueue(0)\<close> reports nothing and
  returns a queue.
\<close>

theorem NewNativeQueue_zero_accepted:
  "NewNativeQueue sample_runtime 0
     = Inr \<lparr>queue = [], head = 0, tail = 0, length_q = 0, capacity = 0\<rparr>"
  by (simp add: NewNativeQueue_def)

text \<open>
  Claim C7, amended. \<open>NewNativeQueue\<close> checks nothing itself; what rejects a size is
  the allocation \<open>make([]int, size, size)\<close>. For every size \<open>< 0\<close> it panics, and no
  queue exists. Size 0 is not rejected: on every runtime the constructor returns a
  queue with an empty buffer. A positive size gives a queue of that many zeroed slots,
  with \<open>head\<close>, \<open>tail\<close> and \<open>length\<close> 0 and \<open>capacity\<close> the size, when the runtime can
  allocate the buffer; beyond the runtime's largest slice length \<open>make\<close> panics as on a
  negative size, and without the memory the program dies, so no queue exists. On every
  queue that was built no call of any run panics, and the only errors returned are
  "queue is full" by \<open>TryPut\<close> and "queue is empty" by \<open>TryGet\<close>.
\<close>

theorem NewNativeQueue_outcomes:
  "(n < 0 \<longrightarrow> NewNativeQueue rt n = Inl MakesliceLenOutOfRange) \<and>
   NewNativeQueue rt 0 = Inr \<lparr>queue = [], head = 0, tail = 0, length_q = 0, capacity = 0\<rparr> \<and>
   (int (maxlen rt) < n \<longrightarrow> NewNativeQueue rt n = Inl MakesliceLenOutOfRange) \<and>
   (0 \<le> n \<and> n \<le> int (maxlen rt) \<and> int (memlen rt) < n \<longrightarrow>
      NewNativeQueue rt n = Inl OutOfMemory) \<and>
   (0 \<le> n \<and> fits rt n \<longrightarrow>
      NewNativeQueue rt n =
        Inr \<lparr>queue = replicate (nat n) 0, head = 0, tail = 0, length_q = 0, capacity = n\<rparr>) \<and>
   (\<forall>q0 cs. NewNativeQueue rt n = Inr q0 \<longrightarrow> list_all no_fault (fst (run q0 cs)))"
proof -
  have "list_all no_fault (fst (run q0 cs))" if new: "NewNativeQueue rt n = Inr q0" for q0 cs
  proof (cases "n = 0")
    case True
    then have "capacity q0 = 0" and "length_q q0 = 0"
      using New_built(3) [OF new] by simp_all
    then show ?thesis by (rule zero_capacity_run(2))
  next
    case False
    then have "0 < n" using New_built(1) [OF new] by simp
    then have "invariant q0" using new by (rule invariant_New)
    then show ?thesis by (rule run_no_fault)
  qed
  then show ?thesis by (simp add: NewNativeQueue_def fits_def)
qed

theorem NewNativeQueue_outcomes_witness:
  "NewNativeQueue sample_runtime (- 1) = Inl MakesliceLenOutOfRange \<and>
   NewNativeQueue sample_runtime 70368744177664 = Inl MakesliceLenOutOfRange \<and>
   NewNativeQueue sample_runtime 17592186044416 = Inl OutOfMemory \<and>
   NewNativeQueue sample_runtime 1
     = Inr \<lparr>queue = [0], head = 0, tail = 0, length_q = 0, capacity = 1\<rparr> \<and>
   list_all no_fault
     (fst (run \<lparr>queue = [0], head = 0, tail = 0, length_q = 0, capacity = 1\<rparr>
        [CallTryGet, CallPut 3, CallTryPut 4, CallPut 5]))"
proof -
  have neg: "NewNativeQueue sample_runtime (- 1) = Inl MakesliceLenOutOfRange"
    using NewNativeQueue_outcomes [of "- 1" sample_runtime] by simp
  have big: "NewNativeQueue sample_runtime 70368744177664 = Inl MakesliceLenOutOfRange"
    using NewNativeQueue_outcomes [of 70368744177664 sample_runtime]
    by (simp add: sample_runtime_def)
  have mem: "NewNativeQueue sample_runtime 17592186044416 = Inl OutOfMemory"
    using NewNativeQueue_outcomes [of 17592186044416 sample_runtime]
    by (simp add: sample_runtime_def)
  have new: "NewNativeQueue sample_runtime 1
      = Inr \<lparr>queue = [0], head = 0, tail = 0, length_q = 0, capacity = 1\<rparr>"
    using NewNativeQueue_outcomes [of 1 sample_runtime] by (simp add: fits_sample)
  have runs: "list_all no_fault
      (fst (run \<lparr>queue = [0], head = 0, tail = 0, length_q = 0, capacity = 1\<rparr> cs))" for cs
    using NewNativeQueue_outcomes [of 1 sample_runtime] new by blast
  show ?thesis
    using neg big mem new runs [of "[CallTryGet, CallPut 3, CallTryPut 4, CallPut 5]"]
    by (simp del: run.simps)
qed

text \<open>
  Claim C8. For a queue built with capacity \<open>n \<ge> 0\<close> (one the runtime can
  allocate), after every run of calls
  \<open>Cap()\<close> returns \<open>n\<close> and the field \<open>capacity\<close> is \<open>n\<close>; no operation, on any state,
  changes the field \<open>capacity\<close> or the size of the buffer.
\<close>

theorem Cap_is_fixed:
  assumes "0 \<le> n" and "fits rt n"
  shows "\<exists>q0. NewNativeQueue rt n = Inr q0 \<and>
    (\<forall>cs. Cap (snd (run q0 cs)) = n \<and> capacity (snd (run q0 cs)) = n \<and>
          fst (exec CallCap (snd (run q0 cs))) = Returned (RetInt n)) \<and>
    (\<forall>c nvq. Cap (state_after c nvq) = Cap nvq \<and>
            capacity (state_after c nvq) = capacity nvq)"
proof -
  let ?q0 = "\<lparr>queue = replicate (nat n) 0, head = 0, tail = 0, length_q = 0, capacity = n\<rparr>"
  have new: "NewNativeQueue rt n = Inr ?q0" using assms by (rule New_fields)
  have "Cap (snd (run ?q0 cs)) = n" and "capacity (snd (run ?q0 cs)) = n" for cs
    using assms(1) by (simp_all add: Cap_def buffer_run capacity_run)
  moreover have "Cap (state_after c nvq) = Cap nvq" for c nvq
    by (simp add: Cap_def buffer_exec)
  ultimately show ?thesis using new capacity_exec by auto
qed

theorem Cap_is_fixed_witness:
  "(0::int) \<le> 2 \<and>
   fits sample_runtime 2 \<and>
   (\<exists>q0. NewNativeQueue sample_runtime 2 = Inr q0 \<and>
      Cap (snd (run q0 [CallPut 5, CallTryPut 6, CallTryPut 7, CallGet, CallClose])) = 2 \<and>
      fst (exec CallCap (snd (run q0 [CallPut 5, CallTryPut 6, CallTryPut 7, CallGet, CallClose])))
        = Returned (RetInt 2))"
proof -
  have nn: "(0::int) \<le> 2" by simp
  have fit: "fits sample_runtime 2" by (simp add: fits_sample)
  from Cap_is_fixed [OF nn fit] obtain q0 where
    new: "NewNativeQueue sample_runtime 2 = Inr q0"
    and caps: "\<And>cs. Cap (snd (run q0 cs)) = 2"
    by blast
  have "Cap (snd (run q0 [CallPut 5, CallTryPut 6, CallTryPut 7, CallGet, CallClose])) = 2"
    by (rule caps)
  with new fit show ?thesis by (auto simp del: run.simps)
qed

text \<open>
  Claim C9. On every state with \<open>length = 0\<close>, \<open>TryGet\<close> returns the value 0 together
  with the error "queue is empty".
\<close>

theorem TryGet_empty_value:
  assumes "length_q nvq = 0"
  shows "fst (TryGet nvq) = Returned (0, Some (errors_New ''queue is empty''))"
  using assms by (simp add: TryGet_empty)

theorem TryGet_empty_value_witness:
  "length_q \<lparr>queue = [7, 8], head = 1, tail = 1, length_q = 0, capacity = 2\<rparr> = 0 \<and>
   fst (TryGet \<lparr>queue = [7, 8], head = 1, tail = 1, length_q = 0, capacity = 2\<rparr>)
     = Returned (0, Some (errors_New ''queue is empty''))"
  using TryGet_empty_value [of "\<lparr>queue = [7, 8], head = 1, tail = 1, length_q = 0, capacity = 2\<rparr>"]
  by simp

text \<open>
  Claim C10, as stated, fails: on the fresh queue of capacity 1, where \<open>Len()\<close> is 0 and
  \<open>Cap()\<close> is 1, \<open>String()\<close> is "Native Len:0 Cap:1", not "Len:0 Cap:1".
\<close>

theorem String_has_prefix:
  "Len \<lparr>queue = [0], head = 0, tail = 0, length_q = 0, capacity = 1\<rparr> = 0 \<and>
   Cap \<lparr>queue = [0], head = 0, tail = 0, length_q = 0, capacity = 1\<rparr> = 1 \<and>
   String \<lparr>queue = [0], head = 0, tail = 0, length_q = 0, capacity = 1\<rparr> = ''Native Len:0 Cap:1'' \<and>
   String \<lparr>queue = [0], head = 0, tail = 0, length_q = 0, capacity = 1\<rparr> \<noteq> ''Len:0 Cap:1''"
  by (simp add: String_def Len_def Cap_def fmt_v_def fmt_nat.simps digit_def)

text \<open>
  Claim C10, amended. On every state \<open>String()\<close> returns exactly
  "Native Len:<n> Cap:<m>", where \<open>n\<close> is \<open>Len()\<close> and \<open>m\<close> is \<open>Cap()\<close> in decimal; the
  call takes no lock and changes nothing.
\<close>

theorem String_format:
  "String nvq = ''Native Len:'' @ fmt_v (Len nvq) @ '' Cap:'' @ fmt_v (Cap nvq) \<and>
   exec CallString nvq = (Returned (RetString (String nvq)), nvq, [])"
  by (simp add: String_def)

theorem String_format_witness:
  "String \<lparr>queue = replicate 345 0, head = 7, tail = 19, length_q = 12, capacity = 345\<rparr>
     = ''Native Len:12 Cap:345''"
  using String_format
    [of "\<lparr>queue = replicate 345 0, head = 7, tail = 19, length_q = 12, capacity = 345\<rparr>"]
  by (simp add: Len_def Cap_def fmt_v_def fmt_nat.simps digit_def)

end
